theory Spec2Isabelle
  imports Complex_Main "HOL-Library.Sublist"
begin

section \<open>Data model of the mock server\<close>

text \<open>
  The development embeds the in-memory stores and the handlers of \<^verbatim>\<open>mock-server.ts\<close>.
  Record fields carry a one-letter prefix of their interface (\<open>r_\<close> for EnergyReading,
  \<open>d_\<close> for Device, \<open>a_\<close> for AggregateStats), since the interfaces share field names.

  Two idealisations are made throughout.  A timestamp is kept as the number of
  milliseconds that \<^verbatim>\<open>new Date(timestamp).getTime()\<close> yields for it, the only way the
  server ever compares timestamps; strings that do not parse as a date are outside the
  model.  JavaScript numbers are real numbers: the rounding error of IEEE doubles is not
  modelled.  The clock and the random source are read from an explicit environment.
\<close>

datatype ReadingType = consumption | generation

datatype DeviceType = grid | solar | wind | battery

datatype DeviceStatus = active | inactive | maintenance

record EnergyReading =
  r_id :: string
  r_deviceId :: string
  r_timestamp :: int
  r_kwh :: real
  r_voltage :: real
  r_readingType :: ReadingType

record Device =
  d_id :: string
  d_name :: string
  d_status :: DeviceStatus
  d_type :: DeviceType
  d_location :: string
  d_utilityId :: string

record AggregateStats =
  a_deviceId :: string
  a_total :: real
  a_average :: real
  a_count :: nat
  a_min :: real
  a_max :: real

text \<open>What one handler invocation reads from the clock and the random source.\<close>

record env =
  gen_id :: string        \<comment> \<open>the result of \<^verbatim>\<open>generateId()\<close>\<close>
  now :: int              \<comment> \<open>\<^verbatim>\<open>new Date()\<close> in milliseconds\<close>
  hour :: nat             \<comment> \<open>\<^verbatim>\<open>new Date().getHours()\<close>\<close>
  rnd_kwh :: real         \<comment> \<open>the draw of \<^verbatim>\<open>Math.random()\<close> for the magnitude\<close>
  rnd_voltage :: real     \<comment> \<open>the draw of \<^verbatim>\<open>Math.random()\<close> for the voltage\<close>

definition MAX_READINGS_PER_DEVICE :: nat where
  "MAX_READINGS_PER_DEVICE = 100"

section \<open>Reading store helpers\<close>

definition getDeviceReadings :: "string \<Rightarrow> EnergyReading list \<Rightarrow> EnergyReading list" where
  "getDeviceReadings deviceId readings = filter (\<lambda>r. r_deviceId r = deviceId) readings"

text \<open>\<^verbatim>\<open>Array.prototype.findIndex\<close>: the first index whose element satisfies the predicate.\<close>

fun findIndex :: "('a \<Rightarrow> bool) \<Rightarrow> 'a list \<Rightarrow> nat option" where
  "findIndex P [] = None"
| "findIndex P (x # xs) =
     (if P x then Some 0 else map_option Suc (findIndex P xs))"

text \<open>\<^verbatim>\<open>readings.splice(index, 1)\<close>.\<close>

definition splice1 :: "nat \<Rightarrow> 'a list \<Rightarrow> 'a list" where
  "splice1 i xs = take i xs @ drop (Suc i) xs"

text \<open>The body of the \<^verbatim>\<open>forEach\<close> in \<^verbatim>\<open>cleanupOldReadings\<close>.\<close>

definition removeReading :: "EnergyReading \<Rightarrow> EnergyReading list \<Rightarrow> EnergyReading list" where
  "removeReading reading readings =
     (case findIndex (\<lambda>r. r_id r = r_id reading) readings of
        None \<Rightarrow> readings
      | Some index \<Rightarrow> splice1 index readings)"

text \<open>
  \<^verbatim>\<open>cleanupOldReadings\<close>.  The array returned by \<^verbatim>\<open>filter\<close> is a fresh one, so sorting
  it leaves the store in its order; \<^verbatim>\<open>sort\<close> is stable, as is \<^const>\<open>sort_key\<close>.  On
  timestamps that parse, the comparator is the order of their milliseconds and the
  sorted array is determined.  A timestamp that does not parse makes the comparator
  return NaN, which no longer orders the array; such stores are not covered, and no
  statement below on what the cleanup evicts extends to them.
\<close>

definition oldestReadings :: "string \<Rightarrow> EnergyReading list \<Rightarrow> EnergyReading list" where
  "oldestReadings deviceId readings =
     (let deviceReadings = getDeviceReadings deviceId readings;
          toRemove = length deviceReadings - MAX_READINGS_PER_DEVICE
      in take toRemove (sort_key r_timestamp deviceReadings))"

definition cleanupOldReadings :: "string \<Rightarrow> EnergyReading list \<Rightarrow> EnergyReading list" where
  "cleanupOldReadings deviceId readings =
     (if length (getDeviceReadings deviceId readings) > MAX_READINGS_PER_DEVICE
      then fold removeReading (oldestReadings deviceId readings) readings
      else readings)"

section \<open>Aggregator\<close>

definition calculateAggregates :: "string \<Rightarrow> EnergyReading list \<Rightarrow> AggregateStats" where
  "calculateAggregates deviceId readings =
     (let deviceReadings = getDeviceReadings deviceId readings in
      if length deviceReadings = 0
      then \<lparr>a_deviceId = deviceId, a_total = 0, a_average = 0, a_count = 0,
            a_min = 0, a_max = 0\<rparr>
      else
        let values = map r_kwh deviceReadings;
            total = fold (\<lambda>val sum. sum + val) values 0
        in \<lparr>a_deviceId = deviceId, a_total = total,
             a_average = total / real (length values),
             a_count = length deviceReadings,
             a_min = fold min (tl values) (hd values),
             a_max = fold max (tl values) (hd values)\<rparr>)"

section \<open>Generator: the synthesis rule\<close>

text \<open>\<^verbatim>\<open>Math.round\<close> rounds to the nearest integer, a tie towards plus infinity.\<close>

definition Math_round :: "real \<Rightarrow> real" where
  "Math_round x = of_int \<lfloor>x + 1 / 2\<rfloor>"

definition generateReading :: "env \<Rightarrow> Device \<Rightarrow> EnergyReading" where
  "generateReading e device =
     (let (kwh, readingType) =
        (if d_type device = solar then
           (if hour e \<ge> 6 \<and> hour e \<le> 18
            then (- (rnd_kwh e * 5 + 2), generation)
            else (0, generation))
         else (rnd_kwh e * 10 + 5, consumption))
      in \<lparr>r_id = gen_id e,
          r_deviceId = d_id device,
          r_timestamp = now e,
          r_kwh = Math_round (kwh * 100) / 100,
          r_voltage = Math_round ((rnd_voltage e * 10 + 235) * 10) / 10,
          r_readingType = readingType\<rparr>)"

section \<open>Server state\<close>

text \<open>
  A JavaScript \<^verbatim>\<open>Set\<close> of socket ids is the list of its members in insertion order,
  the order in which \<^verbatim>\<open>forEach\<close> visits them; a \<^verbatim>\<open>Map\<close> from topic key to such a
  set is a partial function.
\<close>

type_synonym socket_set = "string list"

definition set_add :: "string \<Rightarrow> socket_set \<Rightarrow> socket_set" where
  "set_add x xs = (if x \<in> set xs then xs else xs @ [x])"

definition set_delete :: "string \<Rightarrow> socket_set \<Rightarrow> socket_set" where
  "set_delete x xs = filter (\<lambda>y. y \<noteq> x) xs"

text \<open>The payload of a \<^verbatim>\<open>reading:update\<close> event: deviceId, value, timestamp, voltage.\<close>

datatype payload = ReadingUpdate string real int real

record server =
  devices :: "Device list"
  readings :: "EnergyReading list"
  deviceSubscriptions :: "string \<rightharpoonup> socket_set"
  statusSubscriptions :: socket_set
  alertSubscriptions :: "string \<rightharpoonup> socket_set"
  roomSubscriptions :: "string \<rightharpoonup> socket_set"
  emitted :: "(string \<times> payload) list"
     \<comment> \<open>the log of \<^verbatim>\<open>io.to(socketId).emit("reading:update", ...)\<close> calls, oldest
        first; the room named by a socket id holds that one socket\<close>

definition initial_devices :: "Device list" where
  "initial_devices =
     [\<lparr>d_id = ''EAGLE-200-12345'', d_name = ''Device 1'', d_status = active,
        d_type = grid, d_location = ''Building A - Main Entrance'',
        d_utilityId = ''UTIL-001''\<rparr>,
      \<lparr>d_id = ''EAGLE-200-67890'', d_name = ''Solar Panel Array'', d_status = active,
        d_type = solar, d_location = ''Building A - Rooftop'',
        d_utilityId = ''UTIL-001''\<rparr>,
      \<lparr>d_id = ''EAGLE-200-11111'', d_name = ''Device 2'', d_status = inactive,
        d_type = wind, d_location = ''Building B - West Wing'',
        d_utilityId = ''UTIL-002''\<rparr>,
      \<lparr>d_id = ''EAGLE-200-22222'', d_name = ''Battery Storage Unit'',
        d_status = maintenance, d_type = battery,
        d_location = ''Building C - Basement'', d_utilityId = ''UTIL-003''\<rparr>]"

definition initial_server :: server where
  "initial_server =
     \<lparr>devices = initial_devices, readings = [], deviceSubscriptions = Map.empty,
      statusSubscriptions = [], alertSubscriptions = Map.empty,
      roomSubscriptions = Map.empty, emitted = []\<rparr>"

section \<open>Dispatcher\<close>

definition readingUpdate :: "EnergyReading \<Rightarrow> payload" where
  "readingUpdate reading =
     ReadingUpdate (r_deviceId reading) (r_kwh reading) (r_timestamp reading)
       (r_voltage reading)"

text \<open>
  The emit loop of \<^verbatim>\<open>POST /api/readings\<close>: every member of the device's
  subscriber set, if the registry has the key, is sent the event once.
\<close>

definition emitToSubscribers :: "EnergyReading \<Rightarrow> server \<Rightarrow> (string \<times> payload) list" where
  "emitToSubscribers reading s =
     (case deviceSubscriptions s (r_deviceId reading) of
        None \<Rightarrow> []
      | Some subscribers \<Rightarrow> map (\<lambda>socketId. (socketId, readingUpdate reading)) subscribers)"

text \<open>The loop of \<^verbatim>\<open>reading:new\<close> leaves out the socket that sent the reading.\<close>

definition emitToOthers :: "string \<Rightarrow> EnergyReading \<Rightarrow> server \<Rightarrow> (string \<times> payload) list" where
  "emitToOthers socket_id reading s =
     (case deviceSubscriptions s (r_deviceId reading) of
        None \<Rightarrow> []
      | Some subscribers \<Rightarrow>
          map (\<lambda>subscriberId. (subscriberId, readingUpdate reading))
            (filter (\<lambda>subscriberId. subscriberId \<noteq> socket_id) subscribers))"

text \<open>The loop of the Generator tick runs only for a non-empty subscriber set.\<close>

definition emitIfAny :: "EnergyReading \<Rightarrow> server \<Rightarrow> (string \<times> payload) list" where
  "emitIfAny reading s =
     (case deviceSubscriptions s (r_deviceId reading) of
        None \<Rightarrow> []
      | Some subscribers \<Rightarrow>
          if length subscribers > 0
          then map (\<lambda>socketId. (socketId, readingUpdate reading)) subscribers
          else [])"

section \<open>Recording handlers\<close>

definition is_digit :: "char \<Rightarrow> bool" where
  "is_digit c = (c \<in> set ''0123456789'')"

text \<open>\<^verbatim>\<open>/^EAGLE-200-\d{5}$/.test(deviceId)\<close>.\<close>

definition validateDeviceId :: "string \<Rightarrow> bool" where
  "validateDeviceId deviceId =
     (length deviceId = 15 \<and> take 10 deviceId = ''EAGLE-200-''
      \<and> list_all is_digit (drop 10 deviceId))"

text \<open>The body of a \<^verbatim>\<open>POST /api/readings\<close> request; an absent field is \<open>None\<close>.\<close>

record post_body =
  b_deviceId :: "string option"
  b_kwh :: "real option"
  b_voltage :: "real option"
  b_readingType :: "ReadingType option"

text \<open>One element of the array of a \<^verbatim>\<open>POST /api/readings/batch\<close> request.\<close>

record batch_item =
  i_deviceId :: string
  i_timestamp :: "int option"
  i_kwh :: real
  i_voltage :: "real option"
  i_readingType :: "ReadingType option"

text \<open>\<^verbatim>\<open>voltage || 240\<close>: an absent or zero voltage becomes 240.\<close>

definition voltage_or_240 :: "real option \<Rightarrow> real" where
  "voltage_or_240 v = (case v of None \<Rightarrow> 240 | Some x \<Rightarrow> if x = 0 then 240 else x)"

definition type_or_consumption :: "ReadingType option \<Rightarrow> ReadingType" where
  "type_or_consumption t = (case t of None \<Rightarrow> consumption | Some x \<Rightarrow> x)"

text \<open>The reading that \<^verbatim>\<open>POST /api/readings\<close> builds from a body that passed its checks.\<close>

definition createdReading :: "env \<Rightarrow> string \<Rightarrow> real \<Rightarrow> post_body \<Rightarrow> EnergyReading" where
  "createdReading e deviceId kwh body =
     \<lparr>r_id = gen_id e, r_deviceId = deviceId, r_timestamp = now e,
      r_kwh = Math_round (kwh * 100) / 100,
      r_voltage = voltage_or_240 (b_voltage body),
      r_readingType = type_or_consumption (b_readingType body)\<rparr>"

text \<open>
  \<^verbatim>\<open>POST /api/readings\<close>: the HTTP status and the server afterwards.  The forwarding to
  Kafka does not touch the stores and is left out.
\<close>

definition postReading :: "env \<Rightarrow> post_body \<Rightarrow> server \<Rightarrow> nat \<times> server" where
  "postReading e body s =
     (case b_deviceId body of
        None \<Rightarrow> (400, s)
      | Some deviceId \<Rightarrow>
          if deviceId = [] \<or> \<not> validateDeviceId deviceId then (400, s)
          else (case b_kwh body of
            None \<Rightarrow> (400, s)
          | Some kwh \<Rightarrow>
              if b_readingType body = Some consumption \<and> kwh < 0 then (400, s)
              else if find (\<lambda>d. d_id d = deviceId) (devices s) = None then (404, s)
              else
                let reading = createdReading e deviceId kwh body;
                    s1 = s\<lparr>readings := readings s @ [reading]\<rparr>;
                    s2 = s1\<lparr>readings := cleanupOldReadings deviceId (readings s1)\<rparr>
                in (201, s2\<lparr>emitted := emitted s2 @ emitToSubscribers reading s2\<rparr>)))"

text \<open>
  \<^verbatim>\<open>POST /api/readings/batch\<close>: each element is turned into a reading and pushed;
  the handler neither validates nor cleans up nor emits.  Every element comes with the
  environment read while it is processed.
\<close>

definition newReading :: "env \<times> batch_item \<Rightarrow> EnergyReading" where
  "newReading p =
     (case p of (e, reading) \<Rightarrow>
        \<lparr>r_id = gen_id e, r_deviceId = i_deviceId reading,
         r_timestamp = (case i_timestamp reading of None \<Rightarrow> now e | Some t \<Rightarrow> t),
         r_kwh = i_kwh reading,
         r_voltage = voltage_or_240 (i_voltage reading),
         r_readingType = type_or_consumption (i_readingType reading)\<rparr>)"

definition postBatch :: "(env \<times> batch_item) list \<Rightarrow> server \<Rightarrow> nat \<times> server" where
  "postBatch batchReadings s =
     (201, fold (\<lambda>p s'. s'\<lparr>readings := readings s' @ [newReading p]\<rparr>) batchReadings s)"

text \<open>The socket event \<^verbatim>\<open>reading:new\<close>: the client's reading is stored as it comes.\<close>

definition readingNew :: "string \<Rightarrow> EnergyReading \<Rightarrow> server \<Rightarrow> server" where
  "readingNew socket_id reading s =
     (let s1 = s\<lparr>readings := readings s @ [reading]\<rparr>;
          s2 = s1\<lparr>readings := cleanupOldReadings (r_deviceId reading) (readings s1)\<rparr>
      in s2\<lparr>emitted := emitted s2 @ emitToOthers socket_id reading s2\<rparr>)"

section \<open>Generator: the tick\<close>

text \<open>
  The callback of \<^verbatim>\<open>devices.forEach\<close> in \<^verbatim>\<open>simulateRealTimeReadings\<close>, once the
  reading of the device has been synthesized.
\<close>

definition recordSimulated :: "Device \<Rightarrow> EnergyReading \<Rightarrow> server \<Rightarrow> server" where
  "recordSimulated device reading s =
     (let s1 = s\<lparr>readings := readings s @ [reading]\<rparr>;
          s2 = s1\<lparr>readings := cleanupOldReadings (d_id device) (readings s1)\<rparr>
      in s2\<lparr>emitted := emitted s2 @ emitIfAny reading s2\<rparr>)"

text \<open>
  \<^verbatim>\<open>simulateRealTimeReadings\<close>: the \<^verbatim>\<open>forEach\<close> over the catalog.  \<open>draw device\<close>
  is what the clock and the random source give while \<open>device\<close> is processed.
  Neither \<^verbatim>\<open>generateReading\<close> nor the callback has a failing path, so the tick has no
  error result here.
\<close>

definition simulateRealTimeReadings :: "(Device \<Rightarrow> env) \<Rightarrow> server \<Rightarrow> server" where
  "simulateRealTimeReadings draw s =
     fold (\<lambda>device. recordSimulated device (generateReading (draw device) device))
       (devices s) s"

section \<open>Subscription handlers\<close>

text \<open>
  The handlers of one socket, \<open>socket_id\<close>.  Their delayed test emissions
  (\<^verbatim>\<open>setTimeout\<close>), acknowledgements to the socket itself and log lines do not touch the
  registries and are left out.
\<close>

definition add_member :: "string \<Rightarrow> string \<Rightarrow> (string \<rightharpoonup> socket_set) \<Rightarrow> (string \<rightharpoonup> socket_set)" where
  "add_member key socket_id m =
     (let m1 = (if m key = None then m(key \<mapsto> []) else m)
      in m1(key \<mapsto> set_add socket_id (the (m1 key))))"

definition delete_member :: "string \<Rightarrow> string \<Rightarrow> (string \<rightharpoonup> socket_set) \<Rightarrow> (string \<rightharpoonup> socket_set)" where
  "delete_member key socket_id m =
     (case m key of
        None \<Rightarrow> m
      | Some subscribers \<Rightarrow> m(key \<mapsto> set_delete socket_id subscribers))"

text \<open>\<^verbatim>\<open>m.forEach((subscribers) => subscribers.delete(socket.id))\<close>.\<close>

definition delete_everywhere :: "string \<Rightarrow> (string \<rightharpoonup> socket_set) \<Rightarrow> (string \<rightharpoonup> socket_set)" where
  "delete_everywhere socket_id m = (\<lambda>key. map_option (set_delete socket_id) (m key))"

definition subscribe :: "string \<Rightarrow> string \<Rightarrow> server \<Rightarrow> server" where
  "subscribe socket_id deviceId s =
     s\<lparr>deviceSubscriptions := add_member deviceId socket_id (deviceSubscriptions s)\<rparr>"

definition unsubscribe :: "string \<Rightarrow> string \<Rightarrow> server \<Rightarrow> server" where
  "unsubscribe socket_id deviceId s =
     s\<lparr>deviceSubscriptions := delete_member deviceId socket_id (deviceSubscriptions s)\<rparr>"

definition subscribe_status :: "string \<Rightarrow> server \<Rightarrow> server" where
  "subscribe_status socket_id s =
     s\<lparr>statusSubscriptions := set_add socket_id (statusSubscriptions s)\<rparr>"

definition subscribe_alerts :: "string \<Rightarrow> string \<Rightarrow> server \<Rightarrow> server" where
  "subscribe_alerts socket_id deviceId s =
     s\<lparr>alertSubscriptions := add_member deviceId socket_id (alertSubscriptions s)\<rparr>"

definition join_room :: "string \<Rightarrow> string \<Rightarrow> server \<Rightarrow> server" where
  "join_room socket_id room s =
     s\<lparr>roomSubscriptions := add_member room socket_id (roomSubscriptions s)\<rparr>"

definition leave_room :: "string \<Rightarrow> string \<Rightarrow> server \<Rightarrow> server" where
  "leave_room socket_id room s =
     s\<lparr>roomSubscriptions := delete_member room socket_id (roomSubscriptions s)\<rparr>"

definition disconnect :: "string \<Rightarrow> server \<Rightarrow> server" where
  "disconnect socket_id s =
     s\<lparr>deviceSubscriptions := delete_everywhere socket_id (deviceSubscriptions s),
       statusSubscriptions := set_delete socket_id (statusSubscriptions s),
       alertSubscriptions := delete_everywhere socket_id (alertSubscriptions s),
       roomSubscriptions := delete_everywhere socket_id (roomSubscriptions s)\<rparr>"

text \<open>\<open>membersOf\<close>: the members of a topic, none when the registry has no such key.\<close>

definition membersOf :: "(string \<rightharpoonup> socket_set) \<Rightarrow> string \<Rightarrow> socket_set" where
  "membersOf m key = (case m key of None \<Rightarrow> [] | Some subscribers \<Rightarrow> subscribers)"

section \<open>Runs of the server\<close>

text \<open>
  One inbound request, socket event or timer tick, and the server after it.  The actions
  are the handlers that write to the reading store or to a registry; the handlers that
  only read them, or that only update the device catalog, are not among them.
\<close>

datatype action =
    PostReading env post_body
  | PostBatch "(env \<times> batch_item) list"
  | ReadingNew string EnergyReading
  | Tick "Device \<Rightarrow> env"
  | Subscribe string string
  | Unsubscribe string string
  | SubscribeStatus string
  | SubscribeAlerts string string
  | JoinRoom string string
  | LeaveRoom string string
  | Disconnect string

fun step :: "action \<Rightarrow> server \<Rightarrow> server" where
  "step (PostReading e body) s = snd (postReading e body s)"
| "step (PostBatch batchReadings) s = snd (postBatch batchReadings s)"
| "step (ReadingNew socket_id reading) s = readingNew socket_id reading s"
| "step (Tick draw) s = simulateRealTimeReadings draw s"
| "step (Subscribe socket_id deviceId) s = subscribe socket_id deviceId s"
| "step (Unsubscribe socket_id deviceId) s = unsubscribe socket_id deviceId s"
| "step (SubscribeStatus socket_id) s = subscribe_status socket_id s"
| "step (SubscribeAlerts socket_id deviceId) s = subscribe_alerts socket_id deviceId s"
| "step (JoinRoom socket_id room) s = join_room socket_id room s"
| "step (LeaveRoom socket_id room) s = leave_room socket_id room s"
| "step (Disconnect socket_id) s = disconnect socket_id s"

fun run :: "action list \<Rightarrow> server \<Rightarrow> server" where
  "run [] s = s"
| "run (a # as) s = run as (step a s)"

section \<open>Notions used in the statements\<close>

text \<open>The actions that record readings; the others only touch the registries.\<close>

definition is_recording :: "action \<Rightarrow> bool" where
  "is_recording a =
     (case a of PostReading _ _ \<Rightarrow> True | PostBatch _ \<Rightarrow> True
      | ReadingNew _ _ \<Rightarrow> True | Tick _ \<Rightarrow> True | _ \<Rightarrow> False)"

text \<open>
  The actions that end the membership of socket \<open>c\<close> in the reading topic of device
  \<open>d\<close>: its unsubscribe from that topic and its disconnect.
\<close>

fun drops :: "string \<Rightarrow> string \<Rightarrow> action \<Rightarrow> bool" where
  "drops c d (Unsubscribe socket_id deviceId) = (socket_id = c \<and> deviceId = d)"
| "drops c d (Disconnect socket_id) = (socket_id = c)"
| "drops c d _ = False"

text \<open>A registry whose membership lists have no repetition, as a \<^verbatim>\<open>Set\<close> has none.\<close>

definition distinct_members :: "(string \<rightharpoonup> socket_set) \<Rightarrow> bool" where
  "distinct_members m = (\<forall>key. distinct (membersOf m key))"

text \<open>
  What a handler has emitted: the entries of the log of the server \<open>s'\<close> after the
  handler that the log of the server \<open>s\<close> before it does not have.
\<close>

definition delivered :: "server \<Rightarrow> server \<Rightarrow> (string \<times> payload) list" where
  "delivered s s' = drop (length (emitted s)) (emitted s')"

text \<open>The device topic an event is published on.\<close>

fun topic_of :: "payload \<Rightarrow> string" where
  "topic_of (ReadingUpdate deviceId v t u) = deviceId"

text \<open>The readings an action pushes onto the store, in the order of the pushes.\<close>

definition pushed :: "action \<Rightarrow> server \<Rightarrow> EnergyReading list" where
  "pushed a s =
     (case a of
        PostReading e body \<Rightarrow>
          (if fst (postReading e body s) = 201
           then [createdReading e (the (b_deviceId body)) (the (b_kwh body)) body]
           else [])
      | PostBatch batchReadings \<Rightarrow> map newReading batchReadings
      | ReadingNew socket_id reading \<Rightarrow> [reading]
      | Tick draw \<Rightarrow> map (\<lambda>device. generateReading (draw device) device) (devices s)
      | _ \<Rightarrow> [])"

text \<open>
  An action records in timestamp order for device \<open>d\<close> when the readings it pushes
  for \<open>d\<close> come in non-decreasing timestamp order and none of them is older than a
  reading the store already holds for \<open>d\<close>.
\<close>

definition in_order :: "string \<Rightarrow> action \<Rightarrow> server \<Rightarrow> bool" where
  "in_order d a s =
     (let new = getDeviceReadings d (pushed a s) in
      sorted (map r_timestamp new) \<and>
      (\<forall>old \<in> set (getDeviceReadings d (readings s)). \<forall>r \<in> set new.
         r_timestamp old \<le> r_timestamp r))"

fun in_order_run :: "string \<Rightarrow> action list \<Rightarrow> server \<Rightarrow> bool" where
  "in_order_run d [] s = True"
| "in_order_run d (a # as) s = (in_order d a s \<and> in_order_run d as (step a s))"

section \<open>Concrete inputs\<close>

definition solar_device :: Device where
  "solar_device =
     \<lparr>d_id = ''EAGLE-200-67890'', d_name = ''Solar Panel Array'', d_status = active,
      d_type = solar, d_location = ''Building A - Rooftop'', d_utilityId = ''UTIL-001''\<rparr>"

definition grid_device :: Device where
  "grid_device =
     \<lparr>d_id = ''EAGLE-200-12345'', d_name = ''Device 1'', d_status = active,
      d_type = grid, d_location = ''Building A - Main Entrance'',
      d_utilityId = ''UTIL-001''\<rparr>"

text \<open>An environment at local hour \<open>h\<close> whose magnitude draw is \<open>r\<close>.\<close>

definition env_at :: "nat \<Rightarrow> real \<Rightarrow> env" where
  "env_at h r =
     \<lparr>gen_id = ''reading-1-a'', now = 1, hour = h, rnd_kwh = r, rnd_voltage = 0\<rparr>"

text \<open>A reading of the first device as a client may send it, with id and timestamp.\<close>

definition client_reading :: "string \<Rightarrow> int \<Rightarrow> EnergyReading" where
  "client_reading i t =
     \<lparr>r_id = i, r_deviceId = ''EAGLE-200-12345'', r_timestamp = t, r_kwh = 5,
      r_voltage = 240, r_readingType = consumption\<rparr>"

text \<open>A request body for \<^verbatim>\<open>POST /api/readings\<close>: 5 kWh for the first device.\<close>

definition body_5 :: post_body where
  "body_5 =
     \<lparr>b_deviceId = Some ''EAGLE-200-12345'', b_kwh = Some 5, b_voltage = None,
      b_readingType = None\<rparr>"

text \<open>Sockets s1 and s2 on the reading topic of the first device, s1 subscribed twice.\<close>

definition twice_subscribed :: server where
  "twice_subscribed =
     run [Subscribe ''s1'' ''EAGLE-200-12345'', Subscribe ''s2'' ''EAGLE-200-12345'',
          Subscribe ''s1'' ''EAGLE-200-12345''] initial_server"

text \<open>Ninety-nine readings with pairwise different ids and timestamp 3.\<close>

definition filler :: "EnergyReading list" where
  "filler = map (\<lambda>n. client_reading (replicate (Suc n) CHR ''x'') 3) [0..<99]"

text \<open>
  A store of 101 readings of one device in which the first and the last reading, both
  sent by clients through \<^verbatim>\<open>reading:new\<close>, carry the same id.
\<close>

definition dup_store :: "EnergyReading list" where
  "dup_store = client_reading ''dup'' 5 # filler @ [client_reading ''dup'' 1]"

text \<open>A batch request of 101 readings of one device.\<close>

definition batch_101 :: "(env \<times> batch_item) list" where
  "batch_101 =
     map (\<lambda>n. (\<lparr>gen_id = replicate (Suc n) CHR ''x'', now = int n, hour = 12,
                  rnd_kwh = 0, rnd_voltage = 0\<rparr>,
                \<lparr>i_deviceId = ''EAGLE-200-12345'', i_timestamp = None, i_kwh = 5,
                  i_voltage = None, i_readingType = None\<rparr>)) [0..<101]"

text \<open>A batch request of two readings whose second carries the earlier timestamp.\<close>

definition batch_unordered :: "(env \<times> batch_item) list" where
  "batch_unordered =
     [(env_at 12 0, \<lparr>i_deviceId = ''EAGLE-200-12345'', i_timestamp = Some 2000,
                      i_kwh = 5, i_voltage = None, i_readingType = None\<rparr>),
      (env_at 12 0, \<lparr>i_deviceId = ''EAGLE-200-12345'', i_timestamp = Some 1000,
                      i_kwh = 6, i_voltage = None, i_readingType = None\<rparr>)]"

text \<open>Three recordings for the first device with rising timestamps.\<close>

definition in_order_actions :: "action list" where
  "in_order_actions =
     [ReadingNew ''s1'' (client_reading ''a'' 1000),
      PostBatch [(env_at 12 0, \<lparr>i_deviceId = ''EAGLE-200-12345'', i_timestamp = Some 1500,
                                i_kwh = 5, i_voltage = None, i_readingType = None\<rparr>)],
      ReadingNew ''s1'' (client_reading ''b'' 2000)]"

section \<open>Aggregator and synthesis rule\<close>

lemma Math_round_ge: "of_int a \<le> y \<Longrightarrow> of_int a \<le> Math_round y"
  unfolding Math_round_def by (simp add: le_floor_iff)

lemma Math_round_le: "y \<le> of_int b \<Longrightarrow> Math_round y \<le> of_int b"
  unfolding Math_round_def by (simp add: floor_le_iff)

text \<open>
  Claim C7.  For a device identifier with no reading in the store, a known device or
  not, \<^verbatim>\<open>calculateAggregates\<close> returns count, total, average, min and max all zero
  (next to the identifier it was asked for); it has no error result.
\<close>

theorem calculateAggregates_empty:
  "getDeviceReadings deviceId rs = [] \<Longrightarrow>
   calculateAggregates deviceId rs =
     \<lparr>a_deviceId = deviceId, a_total = 0, a_average = 0, a_count = 0,
      a_min = 0, a_max = 0\<rparr>"
  by (simp add: calculateAggregates_def)

theorem calculateAggregates_empty_witness:
  "calculateAggregates ''EAGLE-200-99999'' [client_reading ''a'' 1] =
     \<lparr>a_deviceId = ''EAGLE-200-99999'', a_total = 0, a_average = 0, a_count = 0,
      a_min = 0, a_max = 0\<rparr>"
proof -
  have "getDeviceReadings ''EAGLE-200-99999'' [client_reading ''a'' 1] = []"
    by (simp add: getDeviceReadings_def client_reading_def)
  then show ?thesis by (rule calculateAggregates_empty)
qed

text \<open>
  The rule for a solar device as it is written: the reading has kind generation; the
  test \<^verbatim>\<open>hour >= 6 && hour <= 18\<close> lets the hours 6 to 18, both included, generate
  minus a draw from [2,7) rounded to two decimals, hence within [-7,-2]; at every other
  hour the magnitude is 0.
\<close>

lemma generateReading_solar:
  assumes "d_type device = solar" and "0 \<le> rnd_kwh e" and "rnd_kwh e < 1"
  shows "r_readingType (generateReading e device) = generation \<and>
         (if 6 \<le> hour e \<and> hour e \<le> 18
          then r_kwh (generateReading e device)
                 = Math_round (- (rnd_kwh e * 5 + 2) * 100) / 100
             \<and> - 7 \<le> r_kwh (generateReading e device)
             \<and> r_kwh (generateReading e device) \<le> - 2
          else r_kwh (generateReading e device) = 0)"
proof -
  let ?x = "- (rnd_kwh e * 5 + 2) * 100"
  have lo: "of_int (- 700) \<le> ?x" using assms by simp
  have hi: "?x \<le> of_int (- 200)" using assms by simp
  have "of_int (- 700) \<le> Math_round ?x" by (rule Math_round_ge [OF lo])
  moreover have "Math_round ?x \<le> of_int (- 200)" by (rule Math_round_le [OF hi])
  ultimately have "- 7 \<le> Math_round ?x / 100 \<and> Math_round ?x / 100 \<le> - 2" by simp
  moreover have "Math_round 0 = 0" by (simp add: Math_round_def)
  ultimately show ?thesis using assms(1) by (simp add: generateReading_def)
qed

text \<open>
  Claim C3.  The claim fails on the code at local hour 18, the first hour after the
  daytime of 6 AM to 6 PM: the rule still generates there, and with the draw 0 the
  magnitude is -2 where the claim says 0.
\<close>

theorem solar_generates_at_hour_18:
  "r_readingType (generateReading (env_at 18 0) solar_device) = generation \<and>
   r_kwh (generateReading (env_at 18 0) solar_device) = - 2 \<and>
   r_kwh (generateReading (env_at 18 0) solar_device) \<noteq> 0"
  by (simp add: generateReading_def env_at_def solar_device_def Math_round_def)

text \<open>
  Claim C9, as amended.  For a device that is not solar the synthesized reading has kind
  consumption, and its magnitude, a draw from [5,15) rounded to two decimals, lies in the
  closed interval from 5 to 15.
\<close>

theorem generateReading_other:
  assumes "d_type device \<noteq> solar" and "0 \<le> rnd_kwh e" and "rnd_kwh e < 1"
  shows "r_readingType (generateReading e device) = consumption \<and>
         r_kwh (generateReading e device)
           = Math_round ((rnd_kwh e * 10 + 5) * 100) / 100 \<and>
         5 \<le> r_kwh (generateReading e device) \<and> r_kwh (generateReading e device) \<le> 15"
proof -
  let ?x = "(rnd_kwh e * 10 + 5) * 100"
  have lo: "of_int 500 \<le> ?x" using assms by simp
  have hi: "?x \<le> of_int 1500" using assms by simp
  have "of_int 500 \<le> Math_round ?x" by (rule Math_round_ge [OF lo])
  moreover have "Math_round ?x \<le> of_int 1500" by (rule Math_round_le [OF hi])
  ultimately have "5 \<le> Math_round ?x / 100 \<and> Math_round ?x / 100 \<le> 15" by simp
  then show ?thesis using assms(1) by (simp add: generateReading_def)
qed

theorem generateReading_other_witness:
  "r_readingType (generateReading (env_at 12 (1 / 2)) grid_device) = consumption \<and>
   r_kwh (generateReading (env_at 12 (1 / 2)) grid_device) = 10"
proof -
  have t: "d_type grid_device \<noteq> solar" by (simp add: grid_device_def)
  have r: "0 \<le> rnd_kwh (env_at 12 (1 / 2))" "rnd_kwh (env_at 12 (1 / 2)) < 1"
    by (simp_all add: env_at_def)
  show ?thesis
    using generateReading_other [OF t r] by (simp add: env_at_def Math_round_def)
qed

text \<open>
  The draw 4095/4096, a double below 1 on which every step of the rule is exact, gives
  14.99755859375, which rounds to 15: the upper end is reached.
\<close>

theorem consumption_15_counterexample:
  "r_readingType (generateReading (env_at 12 (4095 / 4096)) grid_device) = consumption \<and>
   r_kwh (generateReading (env_at 12 (4095 / 4096)) grid_device) = 15 \<and>
   \<not> r_kwh (generateReading (env_at 12 (4095 / 4096)) grid_device) < 15"
  by (simp add: generateReading_def env_at_def grid_device_def Math_round_def)

section \<open>Subscription registries\<close>

subsection \<open>Recording handlers leave the registries alone\<close>

lemma recordSimulated_regs [simp]:
  "deviceSubscriptions (recordSimulated device reading s) = deviceSubscriptions s"
  "statusSubscriptions (recordSimulated device reading s) = statusSubscriptions s"
  "alertSubscriptions (recordSimulated device reading s) = alertSubscriptions s"
  "roomSubscriptions (recordSimulated device reading s) = roomSubscriptions s"
  "devices (recordSimulated device reading s) = devices s"
  by (simp_all add: recordSimulated_def Let_def)

lemma tick_regs:
  "deviceSubscriptions (fold (\<lambda>device. recordSimulated device (f device)) ds s)
     = deviceSubscriptions s \<and>
   statusSubscriptions (fold (\<lambda>device. recordSimulated device (f device)) ds s)
     = statusSubscriptions s \<and>
   alertSubscriptions (fold (\<lambda>device. recordSimulated device (f device)) ds s)
     = alertSubscriptions s \<and>
   roomSubscriptions (fold (\<lambda>device. recordSimulated device (f device)) ds s)
     = roomSubscriptions s \<and>
   devices (fold (\<lambda>device. recordSimulated device (f device)) ds s) = devices s"
  by (induction ds arbitrary: s) simp_all

lemma postReading_regs:
  "deviceSubscriptions (snd (postReading e body s)) = deviceSubscriptions s \<and>
   statusSubscriptions (snd (postReading e body s)) = statusSubscriptions s \<and>
   alertSubscriptions (snd (postReading e body s)) = alertSubscriptions s \<and>
   roomSubscriptions (snd (postReading e body s)) = roomSubscriptions s \<and>
   devices (snd (postReading e body s)) = devices s"
  by (simp add: postReading_def Let_def split: option.splits)

lemma batch_fold_regs:
  "deviceSubscriptions
     (fold (\<lambda>p s'. s'\<lparr>readings := readings s' @ [newReading p]\<rparr>) xs s)
     = deviceSubscriptions s \<and>
   statusSubscriptions
     (fold (\<lambda>p s'. s'\<lparr>readings := readings s' @ [newReading p]\<rparr>) xs s)
     = statusSubscriptions s \<and>
   alertSubscriptions
     (fold (\<lambda>p s'. s'\<lparr>readings := readings s' @ [newReading p]\<rparr>) xs s)
     = alertSubscriptions s \<and>
   roomSubscriptions
     (fold (\<lambda>p s'. s'\<lparr>readings := readings s' @ [newReading p]\<rparr>) xs s)
     = roomSubscriptions s"
  by (induction xs arbitrary: s) auto

lemma readingNew_regs [simp]:
  "deviceSubscriptions (readingNew c reading s) = deviceSubscriptions s"
  "statusSubscriptions (readingNew c reading s) = statusSubscriptions s"
  "alertSubscriptions (readingNew c reading s) = alertSubscriptions s"
  "roomSubscriptions (readingNew c reading s) = roomSubscriptions s"
  by (simp_all add: readingNew_def Let_def)

lemma recording_regs:
  "is_recording a \<Longrightarrow>
   deviceSubscriptions (step a s) = deviceSubscriptions s \<and>
   statusSubscriptions (step a s) = statusSubscriptions s \<and>
   alertSubscriptions (step a s) = alertSubscriptions s \<and>
   roomSubscriptions (step a s) = roomSubscriptions s"
  by (cases a)
     (simp_all add: is_recording_def postReading_regs postBatch_def batch_fold_regs
        simulateRealTimeReadings_def tick_regs)

lemma run_append: "run (xs @ ys) s = run ys (run xs s)"
  by (induction xs arbitrary: s) simp_all

subsection \<open>Members of a topic\<close>

lemma membersOf_add_member:
  "membersOf (add_member k c m) k' =
     (if k' = k then set_add c (membersOf m k) else membersOf m k')"
  by (simp add: membersOf_def add_member_def Let_def set_add_def split: option.splits)

lemma membersOf_delete_member:
  "membersOf (delete_member k c m) k' =
     (if k' = k then set_delete c (membersOf m k) else membersOf m k')"
  by (simp add: membersOf_def delete_member_def set_delete_def split: option.splits)

lemma membersOf_delete_everywhere:
  "membersOf (delete_everywhere c m) k = set_delete c (membersOf m k)"
  by (simp add: membersOf_def delete_everywhere_def set_delete_def split: option.splits)

lemma distinct_set_add: "distinct xs \<Longrightarrow> distinct (set_add c xs)"
  by (simp add: set_add_def)

lemma distinct_set_delete: "distinct xs \<Longrightarrow> distinct (set_delete c xs)"
  by (simp add: set_delete_def)

lemma step_distinct:
  assumes "distinct_members (deviceSubscriptions s)"
  shows "distinct_members (deviceSubscriptions (step a s))"
proof (cases "is_recording a")
  case True
  then show ?thesis using assms by (simp add: recording_regs)
next
  case False
  then show ?thesis using assms
    by (cases a)
       (auto simp: is_recording_def distinct_members_def subscribe_def unsubscribe_def
          subscribe_status_def subscribe_alerts_def join_room_def leave_room_def
          disconnect_def membersOf_add_member membersOf_delete_member
          membersOf_delete_everywhere distinct_set_add distinct_set_delete)
qed

lemma run_distinct:
  "distinct_members (deviceSubscriptions s) \<Longrightarrow>
   distinct_members (deviceSubscriptions (run as s))"
  by (induction as arbitrary: s) (simp_all add: step_distinct del: step.simps)

lemma initial_distinct: "distinct_members (deviceSubscriptions initial_server)"
  by (simp add: distinct_members_def initial_server_def membersOf_def)

lemma step_keeps_member:
  assumes "c \<in> set (membersOf (deviceSubscriptions s) d)" and "\<not> drops c d a"
  shows "c \<in> set (membersOf (deviceSubscriptions (step a s)) d)"
proof (cases "is_recording a")
  case True
  then show ?thesis using assms by (simp add: recording_regs)
next
  case False
  then show ?thesis using assms
    by (cases a)
       (auto simp: is_recording_def subscribe_def unsubscribe_def
          subscribe_status_def subscribe_alerts_def join_room_def leave_room_def
          disconnect_def membersOf_add_member membersOf_delete_member
          membersOf_delete_everywhere set_add_def set_delete_def)
qed

lemma run_keeps_member:
  "c \<in> set (membersOf (deviceSubscriptions s) d) \<Longrightarrow> \<forall>a\<in>set as. \<not> drops c d a \<Longrightarrow>
   c \<in> set (membersOf (deviceSubscriptions (run as s)) d)"
  by (induction as arbitrary: s) (simp_all add: step_keeps_member del: step.simps)

lemma subscribe_member: "c \<in> set (membersOf (deviceSubscriptions (subscribe c d s)) d)"
  by (simp add: subscribe_def membersOf_add_member set_add_def)

lemma emit_to_member:
  assumes "distinct xs" and "c \<in> set xs"
  shows "filter (\<lambda>p. fst p = c) (map (\<lambda>x. (x, ev)) xs) = [(c, ev)]"
proof -
  have "filter (\<lambda>x. x = c) xs = [c]"
    using assms by (induction xs) (auto simp: filter_empty_conv)
  then show ?thesis by (simp add: filter_map comp_def)
qed

lemma emit_to_member_others:
  assumes "distinct xs" and "c \<in> set xs"
  shows "filter (\<lambda>p. fst p = c) (map (\<lambda>x. (x, ev)) (filter (\<lambda>x. x \<noteq> sender) xs))
           = (if sender = c then [] else [(c, ev)])"
proof (cases "sender = c")
  case True
  then show ?thesis by (simp add: filter_map comp_def filter_empty_conv)
next
  case False
  with assms have "distinct (filter (\<lambda>x. x \<noteq> sender) xs)"
    and "c \<in> set (filter (\<lambda>x. x \<noteq> sender) xs)"
    by auto
  then show ?thesis using False by (simp only: emit_to_member if_False)
qed

lemma emitToSubscribers_members:
  "emitToSubscribers reading s =
     map (\<lambda>socketId. (socketId, readingUpdate reading))
       (membersOf (deviceSubscriptions s) (r_deviceId reading))"
  by (simp add: emitToSubscribers_def membersOf_def split: option.splits)

lemma emitToOthers_members:
  "emitToOthers sender reading s =
     map (\<lambda>subscriberId. (subscriberId, readingUpdate reading))
       (filter (\<lambda>subscriberId. subscriberId \<noteq> sender)
          (membersOf (deviceSubscriptions s) (r_deviceId reading)))"
  by (simp add: emitToOthers_def membersOf_def split: option.splits)

lemma emitIfAny_members:
  "emitIfAny reading s =
     map (\<lambda>socketId. (socketId, readingUpdate reading))
       (membersOf (deviceSubscriptions s) (r_deviceId reading))"
  by (simp add: emitIfAny_def membersOf_def split: option.splits)

subsection \<open>What the publishing handlers emit\<close>

lemma postReading_delivered:
  assumes "fst (postReading e body s) = 201"
      and "b_deviceId body = Some d" and "b_kwh body = Some kwh"
  shows "delivered s (snd (postReading e body s))
           = emitToSubscribers (createdReading e d kwh body) s"
  using assms
  by (auto simp: postReading_def Let_def delivered_def emitToSubscribers_def
        split: if_splits)

lemma readingNew_delivered:
  "delivered s (readingNew sender reading s) = emitToOthers sender reading s"
  by (simp add: readingNew_def Let_def delivered_def emitToOthers_def)

lemma recordSimulated_emitted:
  "emitted (recordSimulated device reading s) = emitted s @ emitIfAny reading s"
  by (simp add: recordSimulated_def Let_def emitIfAny_def)

lemma tick_emitted:
  "emitted (fold (\<lambda>device. recordSimulated device (f device)) ds s)
     = emitted s
       @ concat (map (\<lambda>device.
           map (\<lambda>socketId. (socketId, readingUpdate (f device)))
             (membersOf (deviceSubscriptions s) (r_deviceId (f device)))) ds)"
proof (induction ds arbitrary: s)
  case Nil
  show ?case by simp
next
  case (Cons device ds)
  show ?case
    by (simp add: Cons.IH recordSimulated_emitted emitIfAny_members)
qed

lemma tick_delivered:
  "delivered s (simulateRealTimeReadings draw s)
     = concat (map (\<lambda>device.
         map (\<lambda>socketId. (socketId, readingUpdate (generateReading (draw device) device)))
           (membersOf (deviceSubscriptions s) (d_id device))) (devices s))"
proof -
  have "r_deviceId (generateReading (draw device) device) = d_id device" for device
    by (simp add: generateReading_def Let_def split: prod.splits)
  then show ?thesis
    by (simp add: delivered_def simulateRealTimeReadings_def tick_emitted)
qed

lemma tick_to_member:
  assumes "distinct (membersOf m d)" and "c \<in> set (membersOf m d)"
  shows "filter (\<lambda>p. fst p = c \<and> topic_of (snd p) = d)
           (concat (map (\<lambda>device.
              map (\<lambda>socketId. (socketId, readingUpdate (generateReading (draw device) device)))
                (membersOf m (d_id device))) ds))
         = map (\<lambda>device. (c, readingUpdate (generateReading (draw device) device)))
             (filter (\<lambda>device. d_id device = d) ds)"
proof (induction ds)
  case Nil
  show ?case by simp
next
  case (Cons device ds)
  have topic: "topic_of (readingUpdate (generateReading (draw device) device)) = d_id device"
    by (simp add: readingUpdate_def generateReading_def Let_def split: prod.splits)
  let ?ev = "readingUpdate (generateReading (draw device) device)"
  have here: "filter (\<lambda>p. fst p = c \<and> topic_of (snd p) = d)
          (map (\<lambda>socketId. (socketId, ?ev)) (membersOf m (d_id device)))
        = (if d_id device = d then [(c, ?ev)] else [])"
  proof (cases "d_id device = d")
    case True
    have "filter (\<lambda>p. fst p = c \<and> topic_of (snd p) = d)
            (map (\<lambda>socketId. (socketId, ?ev)) (membersOf m d))
          = filter (\<lambda>p. fst p = c) (map (\<lambda>socketId. (socketId, ?ev)) (membersOf m d))"
      using True topic by (intro filter_cong) auto
    then show ?thesis using True by (simp add: emit_to_member [OF assms])
  next
    case False
    then show ?thesis using topic by (simp add: filter_empty_conv)
  qed
  show ?case using Cons.IH here by simp
qed

text \<open>
  Claim C4, as amended.  Take any state the server can reach.  Let socket \<open>c\<close>
  subscribe to the reading topic of device \<open>d\<close> twice, with any actions before,
  between and after the two subscribes except an unsubscribe of \<open>c\<close> from that topic
  or a disconnect of \<open>c\<close>.  Then an accepted \<^verbatim>\<open>POST /api/readings\<close> for \<open>d\<close> emits
  to \<open>c\<close> the event of its reading and nothing else; a Generator tick emits to \<open>c\<close> on
  the topic \<open>d\<close> one event for each device of the catalog whose id is \<open>d\<close>, that of
  the reading it has synthesized for it; and \<^verbatim>\<open>reading:new\<close> for \<open>d\<close> emits to \<open>c\<close>
  the event of the reading once when another socket has sent it, and nothing when \<open>c\<close>
  itself has sent it.
\<close>

theorem subscribed_twice_delivered_once:
  assumes "\<forall>a\<in>set as1. \<not> drops c d a"
      and "\<forall>a\<in>set as2. \<not> drops c d a"
      and "s = run (Subscribe c d # as1 @ Subscribe c d # as2) (run as0 initial_server)"
  shows "(fst (postReading e body s) = 201 \<and> b_deviceId body = Some d \<and>
          b_kwh body = Some kwh \<longrightarrow>
          filter (\<lambda>p. fst p = c) (delivered s (snd (postReading e body s)))
            = [(c, readingUpdate (createdReading e d kwh body))]) \<and>
         filter (\<lambda>p. fst p = c \<and> topic_of (snd p) = d)
             (delivered s (simulateRealTimeReadings draw s))
           = map (\<lambda>device. (c, readingUpdate (generateReading (draw device) device)))
               (filter (\<lambda>device. d_id device = d) (devices s)) \<and>
         (r_deviceId reading = d \<longrightarrow>
          filter (\<lambda>p. fst p = c) (delivered s (readingNew sender reading s))
            = (if sender = c then [] else [(c, readingUpdate reading)]))"
proof -
  let ?s0 = "run as0 initial_server"
  let ?s1 = "subscribe c d (run as1 (subscribe c d ?s0))"
  have s: "s = run as2 ?s1"
    using assms(3) by (simp add: run_append)
  have "c \<in> set (membersOf (deviceSubscriptions ?s1) d)"
    by (rule subscribe_member)
  then have mem: "c \<in> set (membersOf (deviceSubscriptions s) d)"
    unfolding s using assms(2) by (rule run_keeps_member)
  have "distinct_members (deviceSubscriptions ?s0)"
    by (rule run_distinct [OF initial_distinct])
  then have "distinct_members
      (deviceSubscriptions (run (Subscribe c d # as1 @ Subscribe c d # as2) ?s0))"
    by (rule run_distinct)
  then have dist: "distinct (membersOf (deviceSubscriptions s) d)"
    using assms(3) by (simp add: distinct_members_def)
  have post: "filter (\<lambda>p. fst p = c) (delivered s (snd (postReading e body s)))
                = [(c, readingUpdate (createdReading e d kwh body))]"
    if "fst (postReading e body s) = 201" "b_deviceId body = Some d" "b_kwh body = Some kwh"
  proof -
    have "r_deviceId (createdReading e d kwh body) = d" by (simp add: createdReading_def)
    then show ?thesis
      by (simp add: postReading_delivered [OF that] emitToSubscribers_members
            emit_to_member [OF dist mem])
  qed
  have tick: "filter (\<lambda>p. fst p = c \<and> topic_of (snd p) = d)
             (delivered s (simulateRealTimeReadings draw s))
           = map (\<lambda>device. (c, readingUpdate (generateReading (draw device) device)))
               (filter (\<lambda>device. d_id device = d) (devices s))"
    unfolding tick_delivered by (rule tick_to_member [OF dist mem])
  have new: "filter (\<lambda>p. fst p = c) (delivered s (readingNew sender reading s))
            = (if sender = c then [] else [(c, readingUpdate reading)])"
    if "r_deviceId reading = d"
    using that
    by (simp only: readingNew_delivered emitToOthers_members
          emit_to_member_others [OF dist mem])
  from post tick new show ?thesis by blast
qed

theorem subscribed_twice_delivered_once_witness:
  "filter (\<lambda>p. fst p = ''s1'')
     (delivered twice_subscribed (snd (postReading (env_at 12 0) body_5 twice_subscribed)))
     = [(''s1'', ReadingUpdate ''EAGLE-200-12345'' 5 1 240)] \<and>
   filter (\<lambda>p. fst p = ''s1'' \<and> topic_of (snd p) = ''EAGLE-200-12345'')
     (delivered twice_subscribed
        (simulateRealTimeReadings (\<lambda>device. env_at 12 (1 / 2)) twice_subscribed))
     = [(''s1'', ReadingUpdate ''EAGLE-200-12345'' 10 1 235)] \<and>
   filter (\<lambda>p. fst p = ''s1'')
     (delivered twice_subscribed
        (readingNew ''s2'' (client_reading ''a'' 1) twice_subscribed))
     = [(''s1'', ReadingUpdate ''EAGLE-200-12345'' 5 1 240)]"
proof -
  have h1: "\<forall>a\<in>set [Subscribe ''s2'' ''EAGLE-200-12345''].
              \<not> drops ''s1'' ''EAGLE-200-12345'' a"
    by simp
  have h2: "\<forall>a\<in>set []. \<not> drops ''s1'' ''EAGLE-200-12345'' a"
    by simp
  have s: "twice_subscribed
      = run (Subscribe ''s1'' ''EAGLE-200-12345'' # [Subscribe ''s2'' ''EAGLE-200-12345'']
               @ Subscribe ''s1'' ''EAGLE-200-12345'' # [])
          (run [] initial_server)"
    by (simp add: twice_subscribed_def)
  have d: "devices twice_subscribed = initial_devices"
    by (simp add: twice_subscribed_def subscribe_def initial_server_def)
  have ok: "fst (postReading (env_at 12 0) body_5 twice_subscribed) = 201"
    by (simp add: postReading_def body_5_def d initial_devices_def validateDeviceId_def
          is_digit_def Let_def)
  have b: "b_deviceId body_5 = Some ''EAGLE-200-12345''" "b_kwh body_5 = Some 5"
    by (simp_all add: body_5_def)
  have r: "r_deviceId (client_reading ''a'' 1) = ''EAGLE-200-12345''"
    by (simp add: client_reading_def)
  from subscribed_twice_delivered_once
    [OF h1 h2 s, of "env_at 12 0" body_5 5 "\<lambda>device. env_at 12 (1 / 2)"
       "client_reading ''a'' 1" "''s2''"]
    ok b r
  show ?thesis
    by (simp add: d initial_devices_def readingUpdate_def createdReading_def body_5_def
          env_at_def client_reading_def generateReading_def Math_round_def
          voltage_or_240_def)
qed

text \<open>
  A socket that has subscribed twice and then sends a reading of the device through
  \<^verbatim>\<open>reading:new\<close> is a member of the topic and is sent nothing: that loop skips the
  sender.
\<close>

theorem own_reading_not_delivered_counterexample:
  "membersOf
     (deviceSubscriptions
        (run [Subscribe ''s1'' ''EAGLE-200-12345'', Subscribe ''s1'' ''EAGLE-200-12345'']
           initial_server)) ''EAGLE-200-12345'' = [''s1''] \<and>
   delivered
     (run [Subscribe ''s1'' ''EAGLE-200-12345'', Subscribe ''s1'' ''EAGLE-200-12345'']
        initial_server)
     (readingNew ''s1'' (client_reading ''a'' 1)
        (run [Subscribe ''s1'' ''EAGLE-200-12345'', Subscribe ''s1'' ''EAGLE-200-12345'']
           initial_server)) = []"
  by (simp add: readingNew_delivered emitToOthers_members client_reading_def
        subscribe_def initial_server_def membersOf_def add_member_def set_add_def)

subsection \<open>Disconnect\<close>

lemma set_delete_idem: "set_delete c (set_delete c xs) = set_delete c xs"
  by (simp add: set_delete_def)

lemma delete_everywhere_idem:
  "delete_everywhere c (delete_everywhere c m) = delete_everywhere c m"
  by (rule ext) (simp add: delete_everywhere_def option.map_comp comp_def set_delete_idem)

lemma not_member_delete_everywhere:
  "c \<notin> set (membersOf (delete_everywhere c m) k)"
  by (cases "m k") (simp_all add: membersOf_def delete_everywhere_def set_delete_def)

text \<open>
  Claim C5.  After the disconnect handler of socket \<open>c\<close> has run, \<open>c\<close> is a member
  of no topic of the device registry, of the status set, of no topic of the alert
  registry and of no room; running the handler again changes nothing in the server.
\<close>

theorem disconnect_removes_everywhere:
  "c \<notin> set (membersOf (deviceSubscriptions (disconnect c s)) deviceId) \<and>
   c \<notin> set (statusSubscriptions (disconnect c s)) \<and>
   c \<notin> set (membersOf (alertSubscriptions (disconnect c s)) alertId) \<and>
   c \<notin> set (membersOf (roomSubscriptions (disconnect c s)) room) \<and>
   disconnect c (disconnect c s) = disconnect c s"
  by (simp add: disconnect_def not_member_delete_everywhere delete_everywhere_idem
        set_delete_idem)
     (simp add: set_delete_def)

theorem disconnect_removes_everywhere_witness:
  "membersOf
     (deviceSubscriptions
        (disconnect ''s1''
           (run [Subscribe ''s1'' ''EAGLE-200-12345'', Subscribe ''s2'' ''EAGLE-200-12345'',
                 SubscribeStatus ''s1'', JoinRoom ''s1'' ''lobby''] initial_server)))
     ''EAGLE-200-12345'' = [''s2''] \<and>
   statusSubscriptions
     (disconnect ''s1''
        (run [Subscribe ''s1'' ''EAGLE-200-12345'', Subscribe ''s2'' ''EAGLE-200-12345'',
              SubscribeStatus ''s1'', JoinRoom ''s1'' ''lobby''] initial_server)) = []"
  using disconnect_removes_everywhere
    [of "''s1''"
        "run [Subscribe ''s1'' ''EAGLE-200-12345'', Subscribe ''s2'' ''EAGLE-200-12345'',
              SubscribeStatus ''s1'', JoinRoom ''s1'' ''lobby''] initial_server"
        "''EAGLE-200-12345''" "''EAGLE-200-12345''" "''lobby''"]
  by (simp add: initial_server_def subscribe_def subscribe_status_def join_room_def
        disconnect_def membersOf_def add_member_def delete_everywhere_def set_add_def
        set_delete_def)

subsection \<open>Topic keys\<close>

lemma dom_add_member: "dom (add_member k c m) = insert k (dom m)"
  by (auto simp: add_member_def Let_def)

lemma dom_delete_member: "dom (delete_member k c m) = dom m"
  by (auto simp: delete_member_def split: option.splits)

lemma dom_delete_everywhere: "dom (delete_everywhere c m) = dom m"
  by (auto simp: delete_everywhere_def dom_def)

lemma step_keys:
  "dom (deviceSubscriptions s) \<subseteq> dom (deviceSubscriptions (step a s)) \<and>
   dom (alertSubscriptions s) \<subseteq> dom (alertSubscriptions (step a s)) \<and>
   dom (roomSubscriptions s) \<subseteq> dom (roomSubscriptions (step a s))"
proof (cases "is_recording a")
  case True
  then show ?thesis by (simp add: recording_regs)
next
  case False
  then show ?thesis
    by (cases a)
       (auto simp: is_recording_def subscribe_def unsubscribe_def subscribe_status_def
          subscribe_alerts_def join_room_def leave_room_def disconnect_def
          dom_add_member dom_delete_member dom_delete_everywhere)
qed

lemma run_keys:
  "dom (deviceSubscriptions s) \<subseteq> dom (deviceSubscriptions (run as s)) \<and>
   dom (alertSubscriptions s) \<subseteq> dom (alertSubscriptions (run as s)) \<and>
   dom (roomSubscriptions s) \<subseteq> dom (roomSubscriptions (run as s))"
proof (induction as arbitrary: s)
  case Nil
  show ?case by simp
next
  case (Cons a as)
  from step_keys [of s a] Cons.IH [of "step a s"] show ?case
    by (simp del: step.simps) blast
qed

text \<open>
  Claim C10.  Along any sequence of actions the key sets of the device, alert and room
  registries only grow; in particular the key that a subscribe, an alert subscribe or a
  room join has created is still a key after any later actions, unsubscribes, room
  leaves and disconnects among them, which delete members only.
\<close>

theorem topic_keys_persist:
  "dom (deviceSubscriptions s) \<subseteq> dom (deviceSubscriptions (run as s)) \<and>
   dom (alertSubscriptions s) \<subseteq> dom (alertSubscriptions (run as s)) \<and>
   dom (roomSubscriptions s) \<subseteq> dom (roomSubscriptions (run as s)) \<and>
   deviceId \<in> dom (deviceSubscriptions (run as (subscribe c deviceId s))) \<and>
   deviceId \<in> dom (alertSubscriptions (run as (subscribe_alerts c deviceId s))) \<and>
   room \<in> dom (roomSubscriptions (run as (join_room c room s)))"
proof -
  have 1: "deviceId \<in> dom (deviceSubscriptions (subscribe c deviceId s))"
    by (simp add: subscribe_def dom_add_member)
  have 2: "deviceId \<in> dom (alertSubscriptions (subscribe_alerts c deviceId s))"
    by (simp add: subscribe_alerts_def dom_add_member)
  have 3: "room \<in> dom (roomSubscriptions (join_room c room s))"
    by (simp add: join_room_def dom_add_member)
  have "deviceId \<in> dom (deviceSubscriptions (run as (subscribe c deviceId s)))"
    using 1 run_keys [of "subscribe c deviceId s" as] by (meson subsetD)
  moreover
  have "deviceId \<in> dom (alertSubscriptions (run as (subscribe_alerts c deviceId s)))"
    using 2 run_keys [of "subscribe_alerts c deviceId s" as] by (meson subsetD)
  moreover have "room \<in> dom (roomSubscriptions (run as (join_room c room s)))"
    using 3 run_keys [of "join_room c room s" as] by (meson subsetD)
  ultimately show ?thesis using run_keys [of s as] by simp
qed

theorem topic_keys_persist_witness:
  "deviceSubscriptions
     (run [Subscribe ''s1'' ''EAGLE-200-12345'', Unsubscribe ''s1'' ''EAGLE-200-12345'',
           Disconnect ''s1''] initial_server) ''EAGLE-200-12345'' = Some []"
  using topic_keys_persist
    [of initial_server "[Unsubscribe ''s1'' ''EAGLE-200-12345'', Disconnect ''s1'']"
        "''EAGLE-200-12345''" "''s1''" "''lobby''"]
  by (simp add: initial_server_def subscribe_def unsubscribe_def disconnect_def
        add_member_def delete_member_def delete_everywhere_def set_add_def set_delete_def)

section \<open>Reading store\<close>

subsection \<open>Eviction\<close>

lemma getDeviceReadings_all:
  "\<forall>r\<in>set rs. r_deviceId r = d \<Longrightarrow> getDeviceReadings d rs = rs"
  by (simp add: getDeviceReadings_def filter_id_conv)

lemma removeReading_Nil [simp]: "removeReading r [] = []"
  by (simp add: removeReading_def)

lemma removeReading_Cons:
  "removeReading r (x # xs) = (if r_id x = r_id r then xs else x # removeReading r xs)"
  by (cases "findIndex (\<lambda>y. r_id y = r_id r) xs")
     (simp_all add: removeReading_def splice1_def)

lemma removeReading_distinct:
  "distinct (map r_id rs) \<Longrightarrow> removeReading r rs = filter (\<lambda>x. r_id x \<noteq> r_id r) rs"
proof (induction rs)
  case Nil
  show ?case by simp
next
  case (Cons x xs)
  show ?case
  proof (cases "r_id x = r_id r")
    case True
    with Cons.prems have "\<forall>y\<in>set xs. r_id y \<noteq> r_id r" by (auto simp: image_iff)
    then have "filter (\<lambda>y. r_id y \<noteq> r_id r) xs = xs" by (simp add: filter_id_conv)
    with True show ?thesis by (simp add: removeReading_Cons)
  next
    case False
    with Cons show ?thesis by (simp add: removeReading_Cons)
  qed
qed

lemma fold_removeReading_distinct:
  "distinct (map r_id rs) \<Longrightarrow>
   fold removeReading old rs = filter (\<lambda>x. r_id x \<notin> r_id ` set old) rs"
proof (induction old arbitrary: rs)
  case Nil
  show ?case by simp
next
  case (Cons r old)
  have d: "distinct (map r_id (filter (\<lambda>x. r_id x \<noteq> r_id r) rs))"
    using Cons.prems by (rule distinct_map_filter)
  have "fold removeReading (r # old) rs = fold removeReading old (filter (\<lambda>x. r_id x \<noteq> r_id r) rs)"
    using Cons.prems by (simp add: removeReading_distinct)
  also have "\<dots> = filter (\<lambda>x. r_id x \<notin> r_id ` set old) (filter (\<lambda>x. r_id x \<noteq> r_id r) rs)"
    by (rule Cons.IH [OF d])
  also have "\<dots> = filter (\<lambda>x. r_id x \<notin> r_id ` set (r # old)) rs"
    by (auto intro: filter_cong)
  finally show ?case .
qed

lemma oldest_subset: "set (oldestReadings d rs) \<subseteq> set (getDeviceReadings d rs)"
  unfolding oldestReadings_def Let_def
  using set_take_subset [of _ "sort_key r_timestamp (getDeviceReadings d rs)"] by simp

lemma take_drop_sorted_le:
  assumes "x \<in> set (take k (sort_key f xs))" and "y \<in> set (drop k (sort_key f xs))"
  shows "f x \<le> f y"
proof -
  have "sorted (map f (take k (sort_key f xs)) @ map f (drop k (sort_key f xs)))"
    by (simp add: map_append [symmetric] del: map_append)
  then show ?thesis using assms by (auto simp: sorted_append)
qed

text \<open>
  Where no two readings of the store share an id, the removal by id takes out the very
  readings the sort has picked: an evicted reading belongs to the device being cleaned
  up and is at most as new as every reading retained for that device.
\<close>

lemma eviction_oldest_when_ids_differ:
  assumes ids: "distinct (map r_id rs)"
      and r1: "r1 \<in> set rs" "r1 \<notin> set (cleanupOldReadings d rs)"
      and r2: "r2 \<in> set (getDeviceReadings d (cleanupOldReadings d rs))"
  shows "r_deviceId r1 = d \<and> r_timestamp r1 \<le> r_timestamp r2"
proof -
  let ?dev = "getDeviceReadings d rs"
  let ?old = "oldestReadings d rs"
  let ?k = "length ?dev - MAX_READINGS_PER_DEVICE"
  have over: "length ?dev > MAX_READINGS_PER_DEVICE"
    using r1 by (auto simp: cleanupOldReadings_def split: if_splits)
  then have cl: "cleanupOldReadings d rs = filter (\<lambda>x. r_id x \<notin> r_id ` set ?old) rs"
    using ids by (simp add: cleanupOldReadings_def fold_removeReading_distinct)
  have inj: "inj_on r_id (set rs)" using ids by (simp add: distinct_map)
  from r1 cl obtain o1 where o1: "o1 \<in> set ?old" "r_id o1 = r_id r1" by auto
  with oldest_subset [of d rs] have "o1 \<in> set rs" by (auto simp: getDeviceReadings_def)
  with inj o1 r1 have "o1 = r1" by (auto dest: inj_onD)
  with o1 have r1_old: "r1 \<in> set ?old" by simp
  with oldest_subset [of d rs] have dev1: "r_deviceId r1 = d"
    by (auto simp: getDeviceReadings_def)
  from r2 cl have r2_dev: "r2 \<in> set ?dev" and "r2 \<notin> set ?old"
    by (auto simp: getDeviceReadings_def)
  have "set ?dev = set (take ?k (sort_key r_timestamp ?dev)) \<union> set (drop ?k (sort_key r_timestamp ?dev))"
    by (simp add: set_append [symmetric] del: set_append)
  with r2_dev \<open>r2 \<notin> set ?old\<close> have "r2 \<in> set (drop ?k (sort_key r_timestamp ?dev))"
    by (auto simp: oldestReadings_def Let_def)
  moreover from r1_old have "r1 \<in> set (take ?k (sort_key r_timestamp ?dev))"
    by (simp add: oldestReadings_def Let_def)
  ultimately have "r_timestamp r1 \<le> r_timestamp r2" by (rule take_drop_sorted_le [rotated])
  with dev1 show ?thesis by simp
qed

lemma sort_key_snoc_least:
  "\<forall>x\<in>set xs. f b < f x \<Longrightarrow> sort_key f (xs @ [b]) = b # sort_key f xs"
  by (induction xs) auto

lemma dup_store_device: "\<forall>r\<in>set dup_store. r_deviceId r = ''EAGLE-200-12345''"
  by (auto simp: dup_store_def filler_def client_reading_def)

lemma dup_store_length: "length dup_store = 101"
  by (simp add: dup_store_def filler_def)

lemma dup_store_oldest:
  "oldestReadings ''EAGLE-200-12345'' dup_store = [client_reading ''dup'' 1]"
proof -
  have "\<forall>x\<in>set (client_reading ''dup'' 5 # filler).
          r_timestamp (client_reading ''dup'' 1) < r_timestamp x"
    by (auto simp: filler_def client_reading_def)
  then have "sort_key r_timestamp ((client_reading ''dup'' 5 # filler) @ [client_reading ''dup'' 1])
      = client_reading ''dup'' 1 # sort_key r_timestamp (client_reading ''dup'' 5 # filler)"
    by (rule sort_key_snoc_least)
  then show ?thesis
    by (simp add: oldestReadings_def getDeviceReadings_all [OF dup_store_device]
          dup_store_length MAX_READINGS_PER_DEVICE_def)
       (simp add: dup_store_def)
qed

lemma dup_store_cleanup:
  "cleanupOldReadings ''EAGLE-200-12345'' dup_store = filler @ [client_reading ''dup'' 1]"
  by (simp add: cleanupOldReadings_def getDeviceReadings_all [OF dup_store_device]
        dup_store_length MAX_READINGS_PER_DEVICE_def dup_store_oldest)
     (simp add: dup_store_def removeReading_Cons client_reading_def)

lemma cleanup_small:
  "length rs \<le> MAX_READINGS_PER_DEVICE \<Longrightarrow> cleanupOldReadings d rs = rs"
proof -
  assume "length rs \<le> MAX_READINGS_PER_DEVICE"
  moreover have "length (getDeviceReadings d rs) \<le> length rs"
    by (simp add: getDeviceReadings_def)
  ultimately show ?thesis by (simp add: cleanupOldReadings_def)
qed

lemma run_readingNew_small:
  "length (readings s) + length rs \<le> MAX_READINGS_PER_DEVICE \<Longrightarrow>
   readings (run (map (ReadingNew c) rs) s) = readings s @ rs"
proof (induction rs arbitrary: s)
  case Nil
  show ?case by simp
next
  case (Cons r rs)
  have 1: "readings (readingNew c r s) = readings s @ [r]"
    using Cons.prems by (simp add: readingNew_def Let_def cleanup_small)
  then have "length (readings (readingNew c r s)) + length rs \<le> MAX_READINGS_PER_DEVICE"
    using Cons.prems by simp
  from Cons.IH [OF this] 1 show ?case by simp
qed

lemma dup_store_reached:
  "readings (run (map (ReadingNew c) dup_store) initial_server)
     = cleanupOldReadings ''EAGLE-200-12345'' dup_store"
proof -
  let ?first = "client_reading ''dup'' 5 # filler"
  have "length (readings initial_server) + length ?first \<le> MAX_READINGS_PER_DEVICE"
    by (simp add: initial_server_def filler_def MAX_READINGS_PER_DEVICE_def)
  then have "readings (run (map (ReadingNew c) ?first) initial_server) = ?first"
    by (simp only: run_readingNew_small) (simp add: initial_server_def)
  moreover have "map (ReadingNew c) dup_store
      = map (ReadingNew c) ?first @ [ReadingNew c (client_reading ''dup'' 1)]"
    by (simp add: dup_store_def)
  ultimately show ?thesis
    by (simp only: run_append)
       (simp add: readingNew_def Let_def dup_store_def client_reading_def)
qed

text \<open>
  Claim C2.  The claim fails on the code when two stored readings share an id, as the
  readings that clients send through \<^verbatim>\<open>reading:new\<close> may.  After the 101 readings of
  \<open>dup_store\<close> have come in, the cleanup has sorted out the reading of timestamp 1 as
  the oldest, has found by that id the reading pushed first, of timestamp 5, and has
  spliced that one out: the newer reading is evicted and the older one retained.
\<close>

theorem eviction_removes_newer_reading:
  "readings (run (map (ReadingNew ''s1'') dup_store) initial_server)
     = cleanupOldReadings ''EAGLE-200-12345'' dup_store \<and>
   client_reading ''dup'' 5 \<in> set dup_store \<and>
   client_reading ''dup'' 5 \<notin> set (cleanupOldReadings ''EAGLE-200-12345'' dup_store) \<and>
   client_reading ''dup'' 1
     \<in> set (getDeviceReadings ''EAGLE-200-12345''
              (cleanupOldReadings ''EAGLE-200-12345'' dup_store)) \<and>
   \<not> r_timestamp (client_reading ''dup'' 5) \<le> r_timestamp (client_reading ''dup'' 1)"
proof -
  have 1: "client_reading ''dup'' 5 \<in> set dup_store" by (simp add: dup_store_def)
  have 2: "client_reading ''dup'' 5 \<notin> set (filler @ [client_reading ''dup'' 1])"
    by (auto simp: filler_def client_reading_def)
  have 3: "client_reading ''dup'' 1
     \<in> set (getDeviceReadings ''EAGLE-200-12345'' (filler @ [client_reading ''dup'' 1]))"
    by (simp add: getDeviceReadings_def client_reading_def)
  have 4: "\<not> r_timestamp (client_reading ''dup'' 5) \<le> r_timestamp (client_reading ''dup'' 1)"
    by (simp add: client_reading_def)
  show ?thesis
    unfolding dup_store_reached using 1 2 3 4 by (simp add: dup_store_cleanup)
qed

text \<open>With different ids a cleanup leaves the device with at most 100 readings.\<close>

lemma cleanup_count:
  assumes ids: "distinct (map r_id rs)"
  shows "length (getDeviceReadings d (cleanupOldReadings d rs))
           = min (length (getDeviceReadings d rs)) MAX_READINGS_PER_DEVICE"
proof (cases "length (getDeviceReadings d rs) > MAX_READINGS_PER_DEVICE")
  case False
  then show ?thesis by (simp add: cleanupOldReadings_def)
next
  case True
  let ?dev = "getDeviceReadings d rs"
  let ?old = "oldestReadings d rs"
  let ?k = "length ?dev - MAX_READINGS_PER_DEVICE"
  have inj: "inj_on r_id (set rs)" and drs: "distinct rs"
    using ids by (simp_all add: distinct_map)
  have ddev: "distinct ?dev" using drs by (simp add: getDeviceReadings_def)
  have sub: "set ?old \<subseteq> set ?dev" by (rule oldest_subset)
  have dold: "distinct ?old" using ddev by (simp add: oldestReadings_def Let_def)
  have lold: "length ?old = ?k" by (simp add: oldestReadings_def Let_def)
  have "getDeviceReadings d (cleanupOldReadings d rs)
          = filter (\<lambda>x. r_id x \<notin> r_id ` set ?old) ?dev"
    using True ids
    by (simp add: cleanupOldReadings_def fold_removeReading_distinct getDeviceReadings_def
          conj_commute)
  also have "\<dots> = filter (\<lambda>x. x \<notin> set ?old) ?dev"
  proof (rule filter_cong [OF refl])
    fix x assume "x \<in> set ?dev"
    then have x: "x \<in> set rs" by (simp add: getDeviceReadings_def)
    have "set ?old \<subseteq> set rs" using sub by (auto simp: getDeviceReadings_def)
    with inj x show "(r_id x \<notin> r_id ` set ?old) = (x \<notin> set ?old)"
      by (auto dest: inj_onD)
  qed
  finally have "length (getDeviceReadings d (cleanupOldReadings d rs))
                  = card (set ?dev - set ?old)"
    using ddev by (simp add: distinct_length_filter Diff_eq Int_commute Collect_neg_eq)
  also have "\<dots> = card (set ?dev) - card (set ?old)"
    using sub by (simp add: card_Diff_subset)
  also have "\<dots> = length ?dev - ?k"
    using ddev dold lold by (simp add: distinct_card)
  finally show ?thesis using True by simp
qed

subsection \<open>The batch handler\<close>

lemma batch_fold_readings:
  "readings (fold (\<lambda>p s'. s'\<lparr>readings := readings s' @ [newReading p]\<rparr>) xs s)
     = readings s @ map newReading xs"
  by (induction xs arbitrary: s) simp_all

lemma postBatch_readings:
  "readings (snd (postBatch batchReadings s)) = readings s @ map newReading batchReadings"
  by (simp add: postBatch_def batch_fold_readings)

text \<open>
  Claim C1.  The claim fails on the batch handler, which pushes and never cleans up:
  after one batch of 101 readings of one device on the empty store, the store holds 101
  readings of that device.
\<close>

theorem batch_exceeds_cap:
  "length (getDeviceReadings ''EAGLE-200-12345''
             (readings (snd (postBatch batch_101 initial_server)))) = 101 \<and>
   \<not> length (getDeviceReadings ''EAGLE-200-12345''
             (readings (snd (postBatch batch_101 initial_server))))
       \<le> MAX_READINGS_PER_DEVICE"
proof -
  have "\<forall>r\<in>set (map newReading batch_101). r_deviceId r = ''EAGLE-200-12345''"
    by (auto simp: batch_101_def newReading_def)
  then have "getDeviceReadings ''EAGLE-200-12345'' (map newReading batch_101)
               = map newReading batch_101"
    by (rule getDeviceReadings_all)
  moreover have "length batch_101 = 101" by (simp add: batch_101_def)
  ultimately show ?thesis
    by (simp add: postBatch_readings initial_server_def MAX_READINGS_PER_DEVICE_def)
qed

subsection \<open>Recording keeps the order of arrival\<close>

lemma removeReading_subseq: "subseq (removeReading r rs) rs"
  by (induction rs) (auto simp: removeReading_Cons)

lemma fold_removeReading_subseq: "subseq (fold removeReading old rs) rs"
proof (induction old arbitrary: rs)
  case Nil
  show ?case by simp
next
  case (Cons r old)
  have "subseq (fold removeReading old (removeReading r rs)) (removeReading r rs)"
    by (rule Cons.IH)
  also have "subseq (removeReading r rs) rs" by (rule removeReading_subseq)
  finally show ?case by simp
qed

lemma cleanup_subseq: "subseq (cleanupOldReadings d rs) rs"
  by (simp add: cleanupOldReadings_def fold_removeReading_subseq)

lemma push_cleanup_subseq:
  assumes "subseq rs (base @ new)"
  shows "subseq (cleanupOldReadings d (rs @ [r])) (base @ new @ [r])"
proof -
  have "subseq (cleanupOldReadings d (rs @ [r])) (rs @ [r])" by (rule cleanup_subseq)
  also have "subseq (rs @ [r]) ((base @ new) @ [r])" using assms by (simp only: subseq_append)
  finally show ?thesis by simp
qed

lemma recordSimulated_readings:
  "readings (recordSimulated device reading s)
     = cleanupOldReadings (d_id device) (readings s @ [reading])"
  by (simp add: recordSimulated_def Let_def)

lemma tick_subseq:
  "subseq (readings s) (base @ new) \<Longrightarrow>
   subseq (readings (fold (\<lambda>device. recordSimulated device (f device)) ds s))
     (base @ new @ map f ds)"
proof (induction ds arbitrary: s new)
  case Nil
  then show ?case by simp
next
  case (Cons device ds)
  have "subseq (readings (recordSimulated device (f device) s)) (base @ (new @ [f device]))"
    using push_cleanup_subseq [OF Cons.prems] by (simp add: recordSimulated_readings)
  from Cons.IH [OF this] show ?case by simp
qed

lemma postReading_readings:
  "readings (snd (postReading e body s)) =
     (if fst (postReading e body s) = 201
      then cleanupOldReadings (the (b_deviceId body))
             (readings s @ [createdReading e (the (b_deviceId body)) (the (b_kwh body)) body])
      else readings s)"
  by (simp add: postReading_def Let_def split: option.splits)

lemma step_subseq: "subseq (readings (step a s)) (readings s @ pushed a s)"
proof (cases a)
  case (PostReading e body)
  then show ?thesis
    using cleanup_subseq by (simp add: pushed_def postReading_readings)
next
  case (PostBatch items)
  then show ?thesis by (simp add: pushed_def postBatch_readings)
next
  case (ReadingNew c reading)
  then show ?thesis using cleanup_subseq by (simp add: pushed_def readingNew_def Let_def)
next
  case (Tick draw)
  have "subseq (readings s) (readings s @ [])" by simp
  from tick_subseq [OF this, of "\<lambda>device. generateReading (draw device) device" "devices s"]
  show ?thesis using Tick
    by (simp add: pushed_def simulateRealTimeReadings_def)
qed (simp_all add: pushed_def subscribe_def unsubscribe_def subscribe_status_def
       subscribe_alerts_def join_room_def leave_room_def disconnect_def)

lemma subseq_sorted: "subseq xs ys \<Longrightarrow> sorted ys \<Longrightarrow> sorted xs"
proof (induction rule: list_emb.induct)
  case (list_emb_Nil ys)
  show ?case by simp
next
  case (list_emb_Cons xs ys y)
  then show ?case by simp
next
  case (list_emb_Cons2 x y xs ys)
  then have "set xs \<subseteq> set ys" by (auto dest: list_emb_set)
  with list_emb_Cons2 show ?case by auto
qed

lemma step_sorted:
  assumes "sorted (map r_timestamp (getDeviceReadings d (readings s)))" and "in_order d a s"
  shows "sorted (map r_timestamp (getDeviceReadings d (readings (step a s))))"
proof -
  have "sorted (map r_timestamp (getDeviceReadings d (readings s @ pushed a s)))"
    using assms by (auto simp: in_order_def Let_def getDeviceReadings_def sorted_append)
  moreover have "subseq (map r_timestamp (getDeviceReadings d (readings (step a s))))
                  (map r_timestamp (getDeviceReadings d (readings s @ pushed a s)))"
    unfolding getDeviceReadings_def by (intro subseq_map subseq_filter step_subseq)
  ultimately show ?thesis by (rule subseq_sorted [rotated])
qed

text \<open>
  Claim C8, as amended.  The history of a device is its readings in the order of their
  arrival.  When it is sorted by timestamp and every action of a run records in
  timestamp order for the device, it is sorted by timestamp after the run: eviction
  removes readings and never reorders them.
\<close>

theorem history_sorted_when_in_order:
  "sorted (map r_timestamp (getDeviceReadings d (readings s))) \<Longrightarrow> in_order_run d as s \<Longrightarrow>
   sorted (map r_timestamp (getDeviceReadings d (readings (run as s))))"
proof (induction as arbitrary: s)
  case Nil
  then show ?case by simp
next
  case (Cons a as)
  from Cons.prems have "sorted (map r_timestamp (getDeviceReadings d (readings (step a s))))"
    by (simp add: step_sorted del: step.simps)
  with Cons.prems Cons.IH [of "step a s"] show ?case by (simp del: step.simps)
qed

theorem history_sorted_when_in_order_witness:
  "in_order_run ''EAGLE-200-12345'' in_order_actions
     (initial_server\<lparr>readings := [client_reading ''z'' 0]\<rparr>) \<and>
   sorted (map r_timestamp (getDeviceReadings ''EAGLE-200-12345''
     (readings (run in_order_actions
        (initial_server\<lparr>readings := [client_reading ''z'' 0]\<rparr>)))))"
proof -
  let ?s = "initial_server\<lparr>readings := [client_reading ''z'' 0]\<rparr>"
  have h1: "sorted (map r_timestamp (getDeviceReadings ''EAGLE-200-12345'' (readings ?s)))"
    by (simp add: getDeviceReadings_def)
  have h2: "in_order_run ''EAGLE-200-12345'' in_order_actions ?s"
    by (simp add: in_order_actions_def in_order_def pushed_def readingNew_def
          postBatch_def newReading_def cleanupOldReadings_def getDeviceReadings_def
          client_reading_def env_at_def MAX_READINGS_PER_DEVICE_def Let_def)
  from history_sorted_when_in_order [OF h1 h2] h2 show ?thesis by simp
qed

text \<open>
  The batch handler stores the timestamps its client sends, in the order of the request.
\<close>

theorem history_unsorted_counterexample:
  "map r_timestamp (getDeviceReadings ''EAGLE-200-12345''
      (readings (run [PostBatch batch_unordered] initial_server))) = [2000, 1000] \<and>
   \<not> sorted (map r_timestamp (getDeviceReadings ''EAGLE-200-12345''
      (readings (run [PostBatch batch_unordered] initial_server))))"
  by (simp add: postBatch_readings initial_server_def batch_unordered_def newReading_def
        getDeviceReadings_def)

end
